theory Spec2Isabelle
  imports Complex_Main "HOL-Library.Sublist" "HOL-Library.Word"
begin

section \<open>md-to-pretty-pdf: the conversion pipeline of src/index.js\<close>

text \<open>
  Strings of the program are modelled as \<^typ>\<open>string\<close>, the UTF-8 bytes of the JavaScript
  string. Every character the program looks for (\<open><\<close>, \<open>>\<close>, the quotes, \<open>$\<close>, \<open>%\<close>, \<open>.\<close>,
  \<open>/\<close>, letters and digits) is ASCII, and UTF-8 is self-synchronising, so searching, splitting
  and replacing act on the bytes as they act on the UTF-16 code units of a well-formed
  string.
\<close>

subsection \<open>String helpers (JavaScript built-ins)\<close>

text \<open>\<open>s.startsWith(p)\<close>.\<close>

definition startsWith :: "string \<Rightarrow> string \<Rightarrow> bool" where
  "startsWith s p = (take (length p) s = p)"

text \<open>\<open>s.includes(p)\<close>: \<open>p\<close> occurs somewhere in \<open>s\<close>.\<close>

fun str_includes :: "string \<Rightarrow> string \<Rightarrow> bool" where
  "str_includes [] p = (p = [])"
| "str_includes (c # cs) p = (startsWith (c # cs) p \<or> str_includes cs p)"

text \<open>
  \<open>s.replace(p, r)\<close> with a string pattern: the first occurrence of \<open>p\<close> in \<open>s\<close> is
  replaced, and in the replacement text \<open>$$\<close> stands for a dollar sign, \<open>$&\<close> for the
  matched text, \<open>$`\<close> for the text before the match and \<open>$'\<close> for the text after it. A
  string pattern has no capture groups, so \<open>$1\<close>, \<open>$<name>\<close> and a lone \<open>$\<close> are kept as
  they are. \<open>split_first s p\<close> is the text before and after the first occurrence.
\<close>

fun split_first :: "string \<Rightarrow> string \<Rightarrow> (string \<times> string) option" where
  "split_first [] p = (if p = [] then Some ([], []) else None)"
| "split_first (c # cs) p =
     (if startsWith (c # cs) p then Some ([], drop (length p) (c # cs))
      else (case split_first cs p of
              None \<Rightarrow> None
            | Some (front, behind) \<Rightarrow> Some (c # front, behind)))"

fun get_substitution :: "string \<Rightarrow> string \<Rightarrow> string \<Rightarrow> string \<Rightarrow> string" where
  "get_substitution matched front behind [] = []"
| "get_substitution matched front behind [c] = [c]"
| "get_substitution matched front behind (c # d # r) =
     (if c = CHR ''$'' \<and> d = CHR ''$'' then CHR ''$'' # get_substitution matched front behind r
      else if c = CHR ''$'' \<and> d = CHR ''&'' then matched @ get_substitution matched front behind r
      else if c = CHR ''$'' \<and> d = CHR 0x60 then front @ get_substitution matched front behind r
      else if c = CHR ''$'' \<and> d = CHR 0x27 then behind @ get_substitution matched front behind r
      else c # get_substitution matched front behind (d # r))"

definition replace :: "string \<Rightarrow> string \<Rightarrow> string \<Rightarrow> string" where
  "replace s p r =
     (case split_first s p of
        None \<Rightarrow> s
      | Some (front, behind) \<Rightarrow> front @ get_substitution p front behind r @ behind)"

subsection \<open>Output path\<close>

text \<open>
  \<open>const outputPath = inputPath.replace(/\.md$/, ".pdf");\<close>

  The pattern has no flags: the engine tries the start positions from left to right, and
  at a position the pattern matches when the rest of the string is exactly \<open>.md\<close>. The
  first match is replaced by \<open>.pdf\<close> (a replacement text without \<open>$\<close>); a string with no
  match is returned as it is.
\<close>

fun outputPath :: "string \<Rightarrow> string" where
  "outputPath [] = []"
| "outputPath (c # cs) = (if c # cs = ''.md'' then ''.pdf'' else c # outputPath cs)"

text \<open>The directory part of a path: everything up to and including its last slash.\<close>

definition dir_prefix :: "string \<Rightarrow> string" where
  "dir_prefix p = rev (dropWhile (\<lambda>c. c \<noteq> CHR ''/'') (rev p))"

subsection \<open>Numbers\<close>

text \<open>
  A JavaScript number is an IEEE 754 double: \<open>NaN\<close>, an infinity, or a finite value, here
  the rational it stands for (the two zeros are one value; nothing in the program divides
  by a zero or prints one). A rational \<open>x\<close> is the value of a double when \<open>fl x = x\<close>, with
  \<open>fl\<close> below. \<open>truthy\<close> is the test of \<open>if (x)\<close> and \<open>x || d\<close>.
\<close>

datatype jsnum = NaN | Finite rat | PosInfinity | NegInfinity

definition truthy :: "jsnum \<Rightarrow> bool" where
  "truthy x = (case x of NaN \<Rightarrow> False | Finite q \<Rightarrow> q \<noteq> 0 | _ \<Rightarrow> True)"

text \<open>
  Rounding to double precision, to nearest with ties to even. \<open>bitlen a\<close> is the number of
  binary digits of a positive integer, and \<open>binade x\<close>, for \<open>x > 0\<close>, the exponent \<open>e\<close> with
  \<open>2^e \<le> x < 2^(e+1)\<close>.
\<close>

function bitlen :: "int \<Rightarrow> nat" where
  "bitlen a = (if a \<le> 0 then 0 else Suc (bitlen (a div 2)))"
  by pat_completeness auto
termination
  by (relation "measure nat") auto

declare bitlen.simps [simp del]

definition binade :: "rat \<Rightarrow> int" where
  "binade x =
     (case quotient_of x of (a, b) \<Rightarrow>
        (let k = int (bitlen a) - int (bitlen b)
         in if 2 powi k \<le> x then k else k - 1))"

text \<open>The nearest integer, the even one of two that are equally near.\<close>

definition round_even :: "rat \<Rightarrow> int" where
  "round_even y =
     (let f = \<lfloor>y\<rfloor>; r = y - of_int f
      in if r < 1 / 2 then f else if 1 / 2 < r then f + 1 else if even f then f else f + 1)"

text \<open>
  \<open>fl x\<close> is the nearest multiple of the spacing of the doubles around \<open>x\<close>: 53 significant
  binary digits, and \<open>2^-1074\<close> in the subnormal range. \<open>js_round x\<close> is the double that an
  operation with the exact result \<open>x\<close> returns: an infinity when the rounded value reaches
  \<open>2^1024\<close>. A decimal literal such as \<open>25.4\<close> denotes \<open>js_round 25.4\<close>.
\<close>

definition fl :: "rat \<Rightarrow> rat" where
  "fl x =
     (if x = 0 then 0
      else (let u = 2 powi (max (binade \<bar>x\<bar> - 52) (- 1074))
            in of_int (round_even (x / u)) * u))"

definition js_round :: "rat \<Rightarrow> jsnum" where
  "js_round x =
     (let y = fl x
      in if 2 ^ 1024 \<le> \<bar>y\<bar> then (if 0 < x then PosInfinity else NegInfinity) else Finite y)"

text \<open>
  \<open>x * c\<close> and \<open>x / d\<close> for a number \<open>x\<close> and a finite double \<open>c\<close>, \<open>d\<close> other than zero,
  and \<open>Math.floor\<close>.
\<close>

definition js_times :: "jsnum \<Rightarrow> rat \<Rightarrow> jsnum" where
  "js_times x c =
     (case x of
        NaN \<Rightarrow> NaN
      | Finite a \<Rightarrow> js_round (a * c)
      | PosInfinity \<Rightarrow> if 0 < c then PosInfinity else NegInfinity
      | NegInfinity \<Rightarrow> if 0 < c then NegInfinity else PosInfinity)"

definition js_over :: "jsnum \<Rightarrow> rat \<Rightarrow> jsnum" where
  "js_over x d =
     (case x of
        NaN \<Rightarrow> NaN
      | Finite a \<Rightarrow> js_round (a / d)
      | PosInfinity \<Rightarrow> if 0 < d then PosInfinity else NegInfinity
      | NegInfinity \<Rightarrow> if 0 < d then NegInfinity else PosInfinity)"

definition js_floor :: "jsnum \<Rightarrow> jsnum" where
  "js_floor x = (case x of Finite a \<Rightarrow> Finite (of_int \<lfloor>a\<rfloor>) | _ \<Rightarrow> x)"

subsection \<open>Viewport\<close>

text \<open>
  \<open>const mmToPixels = (mm) => Math.floor((mm * 96) / 25.4);\<close>

  The product and the quotient are rounded to double precision, and the divisor is the
  double that the literal \<open>25.4\<close> denotes.
\<close>

definition mmToPixels :: "jsnum \<Rightarrow> jsnum" where
  "mmToPixels mm = js_floor (js_over (js_times mm 96) (fl 25.4))"

definition viewportWidth :: jsnum where
  "viewportWidth = mmToPixels (Finite 210)"

definition viewportHeight :: jsnum where
  "viewportHeight = mmToPixels (Finite 297)"

section \<open>Resource inliner\<close>

subsection \<open>Image discovery\<close>

text \<open>
  \<open>const imgRegex = /<img[^>]+src=["']([^"']+)["'][^>]*>/g;\<close>

  The pattern is matched by backtracking. After the literal \<open><img\<close>, the greedy \<open>[^>]+\<close>
  takes \<open>k \<ge> 1\<close> characters other than \<open>>\<close>, the longest run first; \<open>src_tail\<close> is the
  rest of the pattern at the position it stops at: the literal \<open>src=\<close>, a quote, the
  captured group, a quote, \<open>[^>]*\<close> and \<open>>\<close>. The group \<open>[^"']+\<close> and the final
  \<open>[^>]*\<close> can only succeed with their longest run, since the character after a shorter
  run is one the next item of the pattern excludes. A match yields the captured \<open>src\<close>
  and the text after the match.
\<close>

definition dquote :: char where
  "dquote = CHR 0x22"

definition squote :: char where
  "squote = CHR 0x27"

definition is_quote :: "char \<Rightarrow> bool" where
  "is_quote c = (c = dquote \<or> c = squote)"

definition not_gt :: "char \<Rightarrow> bool" where
  "not_gt c = (c \<noteq> CHR ''>'')"

definition src_tail :: "string \<Rightarrow> (string \<times> string) option" where
  "src_tail u =
     (if startsWith u ''src='' then
        (case drop 4 u of
           [] \<Rightarrow> None
         | q # v \<Rightarrow>
             if is_quote q then
               (let src = takeWhile (\<lambda>c. \<not> is_quote c) v in
                if src = [] then None
                else (case dropWhile (\<lambda>c. \<not> is_quote c) v of
                        [] \<Rightarrow> None
                      | q' # x \<Rightarrow>
                          (case dropWhile not_gt x of
                             [] \<Rightarrow> None
                           | g # rest \<Rightarrow> Some (src, rest))))
             else None)
      else None)"

fun backtrack :: "string \<Rightarrow> nat \<Rightarrow> (string \<times> string) option" where
  "backtrack t 0 = None"
| "backtrack t (Suc k) =
     (case src_tail (drop (Suc k) t) of
        Some r \<Rightarrow> Some r
      | None \<Rightarrow> backtrack t k)"

definition match_here :: "string \<Rightarrow> (string \<times> string) option" where
  "match_here s =
     (if startsWith s ''<img'' then
        (let t = drop 4 s in backtrack t (length (takeWhile not_gt t)))
      else None)"

lemma src_tail_shorter: "src_tail u = Some (src, rest) \<Longrightarrow> length rest < length u"
proof -
  assume a: "src_tail u = Some (src, rest)"
  have dw: "\<And>P (xs::string). length (dropWhile P xs) \<le> length xs"
    by (simp add: length_dropWhile_le)
  from a obtain q v q' x g where
    u: "drop 4 u = q # v" and
    v: "dropWhile (\<lambda>c. \<not> is_quote c) v = q' # x" and
    x: "dropWhile not_gt x = g # rest"
    by (auto simp: src_tail_def Let_def split: if_splits list.splits)
  from x dw [of not_gt x] have "length rest < length x" by simp
  moreover from v dw [of "\<lambda>c. \<not> is_quote c" v] have "length x < length v" by simp
  moreover from u have "length v < length u"
    by (metis diff_le_self impossible_Cons length_drop linorder_not_le order_trans)
  ultimately show ?thesis by simp
qed

lemma backtrack_shorter: "backtrack t k = Some (src, rest) \<Longrightarrow> length rest < length t"
proof (induction k)
  case 0
  then show ?case by simp
next
  case (Suc k)
  show ?case
  proof (cases "src_tail (drop (Suc k) t)")
    case None
    with Suc show ?thesis by simp
  next
    case (Some r)
    with Suc.prems have "src_tail (drop (Suc k) t) = Some (src, rest)" by simp
    from src_tail_shorter [OF this] show ?thesis by simp
  qed
qed

lemma match_here_shorter: "match_here s = Some (src, rest) \<Longrightarrow> length rest < length s"
proof -
  assume "match_here s = Some (src, rest)"
  then have "backtrack (drop 4 s) (length (takeWhile not_gt (drop 4 s))) = Some (src, rest)"
    by (simp add: match_here_def Let_def split: if_splits)
  from backtrack_shorter [OF this] show ?thesis by simp
qed

text \<open>
  \<open>const images = [...html.matchAll(imgRegex)];\<close> the captured \<open>src\<close> of every match, from
  left to right; the search goes on after the end of a match, and one character further
  where there is none.
\<close>

function matchAll :: "string \<Rightarrow> string list" where
  "matchAll [] = []"
| "matchAll (c # cs) =
     (case match_here (c # cs) of
        Some (src, rest) \<Rightarrow> src # matchAll rest
      | None \<Rightarrow> matchAll cs)"
  by pat_completeness auto
termination
proof (relation "measure length")
  show "wf (measure length)" by simp
next
  fix c cs x2 x y
  assume "match_here (c # cs) = Some x2" and "(x, y) = x2"
  then have "match_here (c # cs) = Some (x, y)" by simp
  from match_here_shorter [OF this] show "(y, c # cs) \<in> measure length" by simp
next
  fix c :: char and cs :: string
  show "(cs, c # cs) \<in> measure length" by simp
qed

subsection \<open>Encodings\<close>

text \<open>
  \<open>encodeURIComponent(s)\<close>: every byte of the UTF-8 text is written as \<open>%XX\<close> (upper-case
  hexadecimal), except the letters, the digits and \<open>- _ . ! ~ * ' ( )\<close>. (The built-in
  throws on a lone surrogate; text decoded from a file as UTF-8 has none.)
\<close>

definition hex_digits :: string where
  "hex_digits = ''0123456789ABCDEF''"

definition unreserved :: "char \<Rightarrow> bool" where
  "unreserved c =
     (c \<in> set ''ABCDEFGHIJKLMNOPQRSTUVWXYZabcdefghijklmnopqrstuvwxyz0123456789-_.!~*()''
      \<or> c = squote)"

definition encode_char :: "char \<Rightarrow> string" where
  "encode_char c =
     (if unreserved c then [c]
      else [CHR ''%'', hex_digits ! (of_char c div 16), hex_digits ! (of_char c mod 16)])"

definition encodeURIComponent :: "string \<Rightarrow> string" where
  "encodeURIComponent s = concat (map encode_char s)"

text \<open>
  Percent-decoding, the inverse the specification names: \<open>%XX\<close> is one byte, any other
  character stands for itself, and a \<open>%\<close> without two hexadecimal digits is an error. It
  is not part of the program.
\<close>

fun index_of :: "'a list \<Rightarrow> 'a \<Rightarrow> nat option" where
  "index_of [] x = None"
| "index_of (y # ys) x = (if x = y then Some 0 else map_option Suc (index_of ys x))"

fun percent_decode :: "string \<Rightarrow> string option" where
  "percent_decode [] = Some []"
| "percent_decode (c # cs) =
     (if c = CHR ''%'' then
        (case cs of
           h # l # rest \<Rightarrow>
             (case (index_of hex_digits h, index_of hex_digits l) of
                (Some a, Some b) \<Rightarrow> map_option ((#) (char_of (16 * a + b))) (percent_decode rest)
              | _ \<Rightarrow> None)
         | _ \<Rightarrow> None)
      else map_option ((#) c) (percent_decode cs))"

text \<open>
  \<open>imageBuffer.toString("base64")\<close>: the standard alphabet, three bytes to four
  characters, padded with \<open>=\<close>.
\<close>

type_synonym byte = "8 word"

definition base64_alphabet :: string where
  "base64_alphabet = ''ABCDEFGHIJKLMNOPQRSTUVWXYZabcdefghijklmnopqrstuvwxyz0123456789+/''"

definition b64 :: "nat \<Rightarrow> char" where
  "b64 n = base64_alphabet ! n"

fun base64 :: "byte list \<Rightarrow> string" where
  "base64 [] = []"
| "base64 [a] =
     [b64 (unat a div 4), b64 (unat a mod 4 * 16), CHR ''='', CHR ''='']"
| "base64 [a, b] =
     [b64 (unat a div 4), b64 (unat a mod 4 * 16 + unat b div 16),
      b64 (unat b mod 16 * 4), CHR ''='']"
| "base64 (a # b # c # r) =
     [b64 (unat a div 4), b64 (unat a mod 4 * 16 + unat b div 16),
      b64 (unat b mod 16 * 4 + unat c div 64), b64 (unat c mod 64)] @ base64 r"



subsection \<open>The file system, the path module and lower-casing\<close>

text \<open>
  What the inliner asks of Node and of the language: \<open>fs.readFile(p, "utf-8")\<close> and
  \<open>fs.readFile(p)\<close>, which give the content or reject with a message (\<open>Inl\<close>),
  \<open>path.resolve(base, src)\<close>, \<open>path.extname(p)\<close> and \<open>s.toLowerCase()\<close> (the Unicode
  lower-casing of a string). They are parameters of the model: every theorem holds
  whatever they return.
\<close>

record env =
  readText :: "string \<Rightarrow> string + string"
  readBytes :: "string \<Rightarrow> string + byte list"
  resolve :: "string \<Rightarrow> string \<Rightarrow> string"
  extname :: "string \<Rightarrow> string"
  toLowerCase :: "string \<Rightarrow> string"

subsection \<open>processSVG, imageToDataURL, processLocalImages\<close>

text \<open>
  Each function returns its value together with the lines it writes with
  \<open>console.warn\<close>; \<open>null\<close> is \<open>None\<close>.

  \<open>processSVG\<close> reads the file as text and throws \<open>Not a valid SVG file\<close> unless the text
  includes \<open><svg\<close>; its \<open>catch\<close> turns a rejected read and that error into a warning and
  \<open>null\<close>.
\<close>

definition svg_warning :: "string \<Rightarrow> string \<Rightarrow> string" where
  "svg_warning filePath message =
     ''Warning: Could not process SVG '' @ filePath @ '': '' @ message"

definition image_warning :: "string \<Rightarrow> string \<Rightarrow> string" where
  "image_warning imagePath message =
     ''Warning: Could not load image '' @ imagePath @ '': '' @ message"

definition processSVG :: "env \<Rightarrow> string \<Rightarrow> string option \<times> string list" where
  "processSVG e filePath =
     (case readText e filePath of
        Inl message \<Rightarrow> (None, [svg_warning filePath message])
      | Inr svgContent \<Rightarrow>
          if \<not> str_includes svgContent ''<svg''
          then (None, [svg_warning filePath ''Not a valid SVG file''])
          else (Some svgContent, []))"

text \<open>
  \<open>imageToDataURL\<close>: the SVG branch tests \<open>svgContent\<close> for truth (a non-empty string);
  the \<open>catch\<close> of the other branch warns and returns \<open>imagePath\<close>, the path it was given.
\<close>

definition imageToDataURL :: "env \<Rightarrow> string \<Rightarrow> string option \<times> string list" where
  "imageToDataURL e imagePath =
     (if toLowerCase e (extname e imagePath) = ''.svg'' then
        (case processSVG e imagePath of
           (Some svgContent, warns) \<Rightarrow>
             (if svgContent \<noteq> []
              then Some (''data:image/svg+xml;utf8,'' @ encodeURIComponent svgContent)
              else None, warns)
         | (None, warns) \<Rightarrow> (None, warns))
      else
        (case readBytes e imagePath of
           Inl message \<Rightarrow> (Some imagePath, [image_warning imagePath message])
         | Inr imageBuffer \<Rightarrow>
             (let extension = drop 1 (toLowerCase e (extname e imagePath));
                  mimeType = ''image/'' @ (if extension = ''jpg'' then ''jpeg'' else extension)
              in (Some (''data:'' @ mimeType @ '';base64,'' @ base64 imageBuffer), []))))"

text \<open>
  The body of the loop of \<open>processLocalImages\<close> for one match: the state is the fragment
  and the warnings so far. \<open>if (dataUrl)\<close> holds for a non-empty string. Nothing inside
  the \<open>try\<close> of the loop throws, so its \<open>catch\<close> has no branch here.
\<close>

definition is_local :: "string \<Rightarrow> bool" where
  "is_local src =
     (\<not> startsWith src ''http://'' \<and> \<not> startsWith src ''https://''
      \<and> \<not> startsWith src ''data:'')"

definition process_image ::
  "env \<Rightarrow> string \<Rightarrow> string \<times> string list \<Rightarrow> string \<Rightarrow> string \<times> string list" where
  "process_image e basePath st src =
     (case st of (html, warns) \<Rightarrow>
        if is_local src then
          (let absoluteImagePath = resolve e basePath src in
           case imageToDataURL e absoluteImagePath of
             (Some dataUrl, w) \<Rightarrow>
               if dataUrl \<noteq> [] then (replace html src dataUrl, warns @ w)
               else (html, warns @ w)
           | (None, w) \<Rightarrow> (html, warns @ w))
        else (html, warns))"

text \<open>The matches are those of the fragment as it was given, before any replacement.\<close>

definition processLocalImages :: "env \<Rightarrow> string \<Rightarrow> string \<Rightarrow> string \<times> string list" where
  "processLocalImages e html basePath =
     foldl (process_image e basePath) (html, []) (matchAll html)"

section \<open>Options and numbers\<close>

text \<open>
  \<open>parseFloat\<close> returns a number; \<open>parseInt\<close> returns an integer or \<open>NaN\<close>, here
  \<^typ>\<open>int option\<close>.
\<close>

text \<open>The decimal text of an integer, as a template literal writes it (below \<open>10^21\<close>).\<close>

fun show_nat :: "nat \<Rightarrow> string" where
  "show_nat n =
     (if n < 10 then [''0123456789'' ! n]
      else show_nat (n div 10) @ [''0123456789'' ! (n mod 10)])"

definition show_int :: "int \<Rightarrow> string" where
  "show_int i = (if i < 0 then CHR ''-'' # show_nat (nat (- i)) else show_nat (nat i))"

record margins =
  margin_top :: jsnum
  margin_right :: jsnum
  margin_bottom :: jsnum
  margin_left :: jsnum

record options =
  scale :: jsnum
  fontSize :: int
  margins :: margins

section \<open>Document assembler\<close>

text \<open>
  \<open>generateHTML\<close> reads \<open>styles.css\<close>, the GitHub stylesheet and the highlight.js
  stylesheet, in this order, and fills the template. A rejected read is thrown to the
  caller (\<open>Inl\<close>). The text is the template literal of the source, line by line.
\<close>

datatype stylesheet = CustomCss | GithubCss | HighlightCss

definition nl :: string where
  "nl = [CHR 0x0A]"

definition generateHTML ::
  "(stylesheet \<Rightarrow> string + string) \<Rightarrow> string \<Rightarrow> options \<Rightarrow> string + string" where
  \<open>generateHTML css html opts =
     (case css CustomCss of
        Inl message \<Rightarrow> Inl message
      | Inr customCss \<Rightarrow>
          (case css GithubCss of
             Inl message \<Rightarrow> Inl message
           | Inr githubCss \<Rightarrow>
               (case css HighlightCss of
                  Inl message \<Rightarrow> Inl message
                | Inr highlightCss \<Rightarrow>
                    Inr (''<!DOCTYPE html>'' @ nl
                      @ ''    <html>'' @ nl
                      @ ''    <head>'' @ nl
                      @ ''        <meta charset="UTF-8">'' @ nl
                      @ ''        <meta name="viewport" content="width=device-width, initial-scale=1">'' @ nl
                      @ ''        <style>'' @ nl
                      @ ''            '' @ githubCss @ nl
                      @ ''            '' @ highlightCss @ nl
                      @ ''            '' @ customCss @ nl
                      @ ''            .markdown-body { font-size: '' @ show_int (fontSize opts) @ ''px; }'' @ nl
                      @ ''        </style>'' @ nl
                      @ ''    </head>'' @ nl
                      @ ''    <body class="markdown-body">'' @ nl
                      @ ''        '' @ html @ nl
                      @ ''    </body>'' @ nl
                      @ ''    </html>''))))\<close>

section \<open>Render-and-paginate engine and orchestrator\<close>

text \<open>
  The calls \<open>convertMarkdownToPdf\<close> makes to puppeteer, with their arguments, and what
  the program writes and does, in order. \<open>Exit n\<close> is \<open>process.exit(n)\<close>.
\<close>

datatype browser_call =
    Launch
  | NewPage
  | SetDefaultNavigationTimeout nat
  | SetDefaultTimeout nat
  | SetRequestInterception bool
  | SetViewport jsnum jsnum
  | EmulateMediaType string
  | SetContent string
  | EvaluateImages
  | EvaluateScale jsnum
  | Pdf string margins
  | Close

datatype event =
    LogOptions options
  | Warn string
  | Browser browser_call
  | Log string
  | LogSettings options
  | ConsoleError string
  | Exit nat

text \<open>
  The world outside the program: the files, \<open>path.dirname\<close>, \<open>marked.parse\<close>, the three
  stylesheets, which puppeteer calls reject (and with what message), and the size of the
  set \<open>pendingImages\<close> at each test of the waiting loop.
\<close>

record world =
  files :: env
  dirname :: "string \<Rightarrow> string"
  marked_parse :: "string \<Rightarrow> string + string"
  stylesheets :: "stylesheet \<Rightarrow> string + string"
  rejects :: "browser_call \<Rightarrow> string option"
  pending :: "nat \<Rightarrow> nat"

text \<open>
  A sequence of awaited calls: the first one that rejects throws, and the calls after it
  are not made.
\<close>

fun run_calls :: "world \<Rightarrow> browser_call list \<Rightarrow> event list \<times> string option" where
  "run_calls w [] = ([], None)"
| "run_calls w (c # cs) =
     (case rejects w c of
        Some message \<Rightarrow> ([], Some message)
      | None \<Rightarrow> (case run_calls w cs of (tr, r) \<Rightarrow> (Browser c # tr, r)))"

text \<open>
  \<open>while (pendingImages.size > 0) { await new Promise((resolve) => setTimeout(resolve, 100)); }\<close>

  The loop ends at the first test that finds the set empty, and never if there is none:
  then the value is \<open>None\<close>.
\<close>

partial_function (option) wait_pending :: "(nat \<Rightarrow> nat) \<Rightarrow> nat \<Rightarrow> nat option" where
  "wait_pending sizes i = (if sizes i > 0 then wait_pending sizes (Suc i) else Some i)"

declare wait_pending.simps [code]

text \<open>
  The \<open>catch\<close> of \<open>convertMarkdownToPdf\<close>: \<open>console.error("Error:", error); process.exit(1);\<close>
  (\<open>debugLog\<close> and \<open>writeDebugHtml\<close> return at once: nothing assigns \<open>global.DEBUG_MODE\<close>.)
\<close>

definition catch_error :: "event list \<Rightarrow> string \<Rightarrow> event list option" where
  "catch_error tr message = Some (tr @ [ConsoleError message, Exit 1])"

text \<open>
  \<open>convertMarkdownToPdf\<close>: the events of a run, or \<open>None\<close> when the waiting loop never
  ends. A run that ends without \<open>Exit\<close> returns normally.
\<close>

definition convertMarkdownToPdf :: "world \<Rightarrow> string \<Rightarrow> options \<Rightarrow> event list option" where
  "convertMarkdownToPdf w inputPath opts =
     (let baseDir = dirname w inputPath in
      case readText (files w) inputPath of
        Inl message \<Rightarrow> catch_error [] message
      | Inr markdown \<Rightarrow>
      (case marked_parse w markdown of
        Inl message \<Rightarrow> catch_error [] message
      | Inr parsed \<Rightarrow>
      (case processLocalImages (files w) parsed baseDir of (html, warnings) \<Rightarrow>
      (case generateHTML (stylesheets w) html opts of
        Inl message \<Rightarrow> catch_error (map Warn warnings) message
      | Inr finalHtml \<Rightarrow>
      (case run_calls w
          [Launch, NewPage, SetDefaultNavigationTimeout 30000, SetDefaultTimeout 30000,
           SetRequestInterception True, SetViewport (mmToPixels (Finite 210)) (mmToPixels (Finite 297)),
           EmulateMediaType ''print'', SetContent finalHtml, EvaluateImages] of
        (tr1, Some message) \<Rightarrow> catch_error (map Warn warnings @ tr1) message
      | (tr1, None) \<Rightarrow>
      (case wait_pending (pending w) 0 of
        None \<Rightarrow> None
      | Some polls \<Rightarrow>
      (case run_calls w
          ((if scale opts \<noteq> Finite 1 then [EvaluateScale (scale opts)] else [])
           @ [Pdf (outputPath inputPath) (margins opts), Close]) of
        (tr2, Some message) \<Rightarrow> catch_error (map Warn warnings @ tr1 @ tr2) message
      | (tr2, None) \<Rightarrow>
          Some (map Warn warnings @ tr1 @ tr2
                @ [Log (''PDF created successfully at: '' @ outputPath inputPath),
                   LogSettings opts]))))))))"

section \<open>Command line\<close>

text \<open>
  The options as commander hands them to the action: \<open>--scale\<close> through \<open>parseFloat\<close>
  (default 1.0), \<open>--font-size\<close> through \<open>parseInt\<close> (default 16), \<open>--margin\<close> through
  \<open>parseFloat\<close> (undefined, here \<open>None\<close>, when absent). The action sets the font size and
  the margins, logs the options and calls \<open>convertMarkdownToPdf\<close>.
\<close>

record cli_options =
  cli_scale :: jsnum
  cli_fontSize :: "int option"
  cli_margin :: "jsnum option"

definition action :: "world \<Rightarrow> string \<Rightarrow> cli_options \<Rightarrow> event list option" where
  "action w inputPath cli =
     (let fontSize = (case cli_fontSize cli of
                        None \<Rightarrow> 16
                      | Some n \<Rightarrow> if n \<noteq> 0 then n else 16);
          m = (case cli_margin cli of
                 None \<Rightarrow> Finite 25.4
               | Some x \<Rightarrow> if truthy x then x else Finite 25.4);
          opts = \<lparr>scale = cli_scale cli, fontSize = fontSize,
                  margins = \<lparr>margin_top = m, margin_right = m,
                             margin_bottom = m, margin_left = m\<rparr>\<rparr>
      in map_option ((#) (LogOptions opts)) (convertMarkdownToPdf w inputPath opts))"

text \<open>
  The earlier script (the root \<open>index.js\<close>) validates its arguments before it converts:
  \<open>if (isNaN(scale) || scale <= 0)\<close>, \<open>if (isNaN(fontSize) || fontSize <= 0)\<close>, and for
  each margin in the order top, right, bottom, left \<open>if (isNaN(value) || value < 0)\<close>;
  each prints its message and calls \<open>process.exit(1)\<close>. The result is the message of
  the first check that fails.
\<close>

definition le_zero :: "jsnum \<Rightarrow> bool" where
  "le_zero x = (case x of NaN \<Rightarrow> False | Finite q \<Rightarrow> q \<le> 0 | PosInfinity \<Rightarrow> False
                | NegInfinity \<Rightarrow> True)"

definition lt_zero :: "jsnum \<Rightarrow> bool" where
  "lt_zero x = (case x of NaN \<Rightarrow> False | Finite q \<Rightarrow> q < 0 | PosInfinity \<Rightarrow> False
                | NegInfinity \<Rightarrow> True)"

definition legacy_validate :: "jsnum \<Rightarrow> jsnum \<Rightarrow> margins \<Rightarrow> string option" where
  "legacy_validate scale_arg fontSize_arg m =
     (if scale_arg = NaN \<or> le_zero scale_arg
      then Some ''Error: Scale factor must be a positive number''
      else if fontSize_arg = NaN \<or> le_zero fontSize_arg
      then Some ''Error: Font size must be a positive number''
      else (case filter (\<lambda>(side, value). value = NaN \<or> lt_zero value)
                   [(''top'', margin_top m), (''right'', margin_right m),
                    (''bottom'', margin_bottom m), (''left'', margin_left m)] of
              [] \<Rightarrow> None
            | (side, value) # others \<Rightarrow>
                Some (''Error: '' @ side @ '' margin must be a non-negative number'')))"

section \<open>An example world\<close>

text \<open>
  A directory \<open>/d\<close> with \<open>doc.md\<close>, \<open>notes.txt\<close>, \<open>a.svg\<close>, \<open>bad.svg\<close>, \<open>a.png\<close>,
  \<open>A.PNG\<close> and \<open>b.jpg\<close>; every other read is rejected. \<open>example_extname\<close> is the
  extension of the last segment of a resolved path, and \<open>ascii_lower\<close> lower-cases the
  letters \<open>A\<close> to \<open>Z\<close>, which is what \<open>toLowerCase\<close> does on these paths. The two
  documents hold \<open># T\<close>, which marked turns into \<open><h1>T</h1>\<close>, and the stylesheets are
  empty. The browser accepts every call and no image request is pending.
\<close>

definition lower_char :: "char \<Rightarrow> char" where
  "lower_char c =
     (let n = (of_char c :: nat) in if 65 \<le> n \<and> n \<le> 90 then char_of (n + 32) else c)"

definition ascii_lower :: "string \<Rightarrow> string" where
  "ascii_lower s = map lower_char s"

definition example_extname :: "string \<Rightarrow> string" where
  "example_extname p =
     (let name = rev (takeWhile (\<lambda>c. c \<noteq> CHR ''/'') (rev p));
          ext = rev (takeWhile (\<lambda>c. c \<noteq> CHR ''.'') (rev name))
      in if CHR ''.'' \<in> set name \<and> length ext + 1 \<noteq> length name then CHR ''.'' # ext else [])"

definition example_env :: env where
  "example_env = \<lparr>
     readText = (\<lambda>p. if p = ''/d/doc.md'' \<or> p = ''/d/notes.txt'' then Inr ''# T''
                      else if p = ''/d/a.svg'' then Inr ''<svg a=$1>&</svg>''
                      else if p = ''/d/bad.svg'' then Inr ''<html/>''
                      else Inl ''ENOENT''),
     readBytes = (\<lambda>p. if p = ''/d/a.png'' \<or> p = ''/d/A.PNG'' then Inr [0x89, 0x50, 0x4E, 0x47]
                       else if p = ''/d/b.jpg'' then Inr [0xFF, 0xD8]
                       else Inl ''ENOENT''),
     resolve = (\<lambda>b s. b @ ''/'' @ s),
     extname = example_extname,
     toLowerCase = ascii_lower \<rparr>"

definition example_world :: world where
  "example_world = \<lparr>
     files = example_env,
     dirname = (\<lambda>p. ''/d''),
     marked_parse = (\<lambda>m. if m = ''# T'' then Inr ''<h1>T</h1>'' else Inl ''parse error''),
     stylesheets = (\<lambda>s. Inr []),
     rejects = (\<lambda>c. None),
     pending = (\<lambda>i. 0) \<rparr>"

text \<open>The defaults of the command line, and the document assembled from \<open><p>T</p>\<close>.\<close>

definition default_margins :: margins where
  "default_margins = \<lparr>margin_top = Finite 25.4, margin_right = Finite 25.4,
                        margin_bottom = Finite 25.4, margin_left = Finite 25.4\<rparr>"

definition default_options :: options where
  "default_options = \<lparr>scale = Finite 1, fontSize = 16, margins = default_margins\<rparr>"

definition example_document :: string where
  \<open>example_document =
     ''<!DOCTYPE html>'' @ nl
     @ ''    <html>'' @ nl
     @ ''    <head>'' @ nl
     @ ''        <meta charset="UTF-8">'' @ nl
     @ ''        <meta name="viewport" content="width=device-width, initial-scale=1">'' @ nl
     @ ''        <style>'' @ nl
     @ ''            '' @ nl
     @ ''            '' @ nl
     @ ''            '' @ nl
     @ ''            .markdown-body { font-size: 16px; }'' @ nl
     @ ''        </style>'' @ nl
     @ ''    </head>'' @ nl
     @ ''    <body class="markdown-body">'' @ nl
     @ ''        <p>T</p>'' @ nl
     @ ''    </body>'' @ nl
     @ ''    </html>''\<close>

text \<open>The same world, where loading the document into the page times out.\<close>

definition timeout_world :: world where
  "timeout_world = example_world\<lparr>
     rejects := (\<lambda>c. case c of
                       SetContent h \<Rightarrow> Some ''Navigation timeout of 30000 ms exceeded''
                     | _ \<Rightarrow> None)\<rparr>"

text \<open>The events of a run without the document text given to \<open>page.setContent\<close>.\<close>

definition is_content :: "event \<Rightarrow> bool" where
  "is_content ev = (case ev of Browser (SetContent h) \<Rightarrow> True | _ \<Rightarrow> False)"

definition without_content :: "event list \<Rightarrow> event list" where
  "without_content tr = filter (\<lambda>ev. \<not> is_content ev) tr"

section \<open>Properties\<close>

subsection \<open>Output path\<close>

lemma outputPath_md: "outputPath (stem @ ''.md'') = stem @ ''.pdf''"
proof (induction stem)
  case Nil
  show ?case by simp
next
  case (Cons c stem)
  have "length (c # stem @ ''.md'') \<noteq> length ''.md''" by simp
  then have "c # stem @ ''.md'' \<noteq> ''.md''" by metis
  then show ?case using Cons.IH by simp
qed

lemma outputPath_other: "\<not> suffix ''.md'' p \<Longrightarrow> outputPath p = p"
proof (induction p)
  case Nil
  show ?case by simp
next
  case (Cons c cs)
  from Cons.prems have ne: "c # cs \<noteq> ''.md''" by auto
  from Cons.prems have "\<not> suffix ''.md'' cs" by (auto simp: suffix_Cons)
  with Cons.IH ne show ?case by simp
qed

lemma dir_prefix_append:
  "CHR ''/'' \<notin> set e \<Longrightarrow> dir_prefix (stem @ e) = dir_prefix stem"
proof -
  assume "CHR ''/'' \<notin> set e"
  then have "dropWhile (\<lambda>c. c \<noteq> CHR ''/'') (rev e @ rev stem)
      = dropWhile (\<lambda>c. c \<noteq> CHR ''/'') (rev stem)"
    by (intro dropWhile_append2) auto
  then show ?thesis by (simp add: dir_prefix_def)
qed

lemma outputPath_cases:
  "outputPath p = p \<or> (\<exists>stem. p = stem @ ''.md'' \<and> outputPath p = stem @ ''.pdf'')"
proof (cases "suffix ''.md'' p")
  case True
  then obtain stem where "p = stem @ ''.md''" by (auto simp: suffix_def)
  then show ?thesis using outputPath_md by blast
next
  case False
  then show ?thesis by (simp add: outputPath_other)
qed

subsection \<open>Viewport\<close>

lemma bitlen_bounds: "0 < a \<Longrightarrow> 2 ^ (bitlen a - 1) \<le> a \<and> a < 2 ^ bitlen a"
proof (induction a rule: bitlen.induct)
  case (1 a)
  show ?case
  proof (cases "a div 2 \<le> 0")
    case True
    with "1.prems" have "a = 1" by arith
    then show ?thesis by (simp add: bitlen.simps [of 1] bitlen.simps [of 0])
  next
    case False
    then have pos: "0 < a div 2" by simp
    from "1.prems" have nz: "\<not> a \<le> 0" by simp
    from "1.IH" [OF nz pos]
    have lo: "2 ^ (bitlen (a div 2) - 1) \<le> a div 2" and hi: "a div 2 < 2 ^ bitlen (a div 2)"
      by simp_all
    from pos have "bitlen (a div 2) \<noteq> 0" by (simp add: bitlen.simps [of "a div 2"])
    then obtain l where l: "bitlen (a div 2) = Suc l" by (cases "bitlen (a div 2)") auto
    from nz have b: "bitlen a = Suc (Suc l)" by (simp add: bitlen.simps [of a] l)
    from lo l have "(2::int) ^ l \<le> a div 2" by simp
    then have "(2::int) * 2 ^ l \<le> a" by arith
    moreover from hi l have "a div 2 < 2 * 2 ^ l" by simp
    then have "a < 2 * (2 * 2 ^ l)" by arith
    ultimately show ?thesis by (simp add: b)
  qed
qed

lemma binade_upper:
  assumes "0 < x" and "x < 2 powi (n + 1)"
  shows "binade x \<le> n"
proof -
  obtain a b where q: "quotient_of x = (a, b)" by (cases "quotient_of x")
  then have b: "0 < b" and x: "x = of_int a / of_int b"
    by (simp_all add: quotient_of_denom_pos quotient_of_div)
  from assms(1) b x have a: "0 < a" by (simp add: zero_less_divide_iff)
  define k where "k = int (bitlen a) - int (bitlen b)"
  show ?thesis
  proof (cases "2 powi k \<le> x")
    case True
    then have "binade x = k" by (simp add: binade_def q k_def)
    moreover have "k \<le> n"
    proof (rule ccontr)
      assume "\<not> k \<le> n"
      then have "n + 1 \<le> k" by simp
      then have "(2::rat) powi (n + 1) \<le> 2 powi k" by (intro power_int_increasing) simp_all
      with True assms(2) show False by simp
    qed
    ultimately show ?thesis by simp
  next
    case False
    then have bx: "binade x = k - 1" by (simp add: binade_def q k_def)
    from bitlen_bounds [OF a] have alo: "2 ^ (bitlen a - 1) \<le> a" by simp
    from bitlen_bounds [OF b] have bhi: "b < 2 ^ bitlen b" by simp
    from a have "bitlen a \<noteq> 0" by (simp add: bitlen.simps [of a])
    then obtain l where l: "bitlen a = Suc l" by (cases "bitlen a") auto
    from alo l have "(2::int) ^ l \<le> a" by simp
    then have alo': "(2::rat) ^ l \<le> of_int a" by (metis of_int_le_iff of_int_numeral of_int_power)
    from bhi have bhi': "(of_int b :: rat) < 2 ^ bitlen b"
      by (metis of_int_less_iff of_int_numeral of_int_power)
    have "(2::rat) ^ l / 2 ^ bitlen b \<le> of_int a / 2 ^ bitlen b"
      using alo' by (simp add: divide_right_mono)
    also have "\<dots> < of_int a / of_int b"
      using bhi' a b by (intro divide_strict_left_mono) simp_all
    finally have "(2::rat) ^ l / 2 ^ bitlen b < x" by (simp add: x)
    moreover have "(2::rat) powi (k - 1) = 2 ^ l / 2 ^ bitlen b"
      by (simp add: k_def l power_int_diff)
    ultimately have lo: "(2::rat) powi (k - 1) < x" by simp
    have "k - 1 \<le> n"
    proof (rule ccontr)
      assume "\<not> k - 1 \<le> n"
      then have "n + 1 \<le> k - 1" by simp
      then have "(2::rat) powi (n + 1) \<le> 2 powi (k - 1)" by (intro power_int_increasing) simp_all
      with lo assms(2) show False by simp
    qed
    with bx show ?thesis by simp
  qed
qed

lemma round_even_cases: "round_even y = \<lfloor>y\<rfloor> \<or> round_even y = \<lfloor>y\<rfloor> + 1"
  by (simp add: round_even_def Let_def)

lemma round_even_of_int: "round_even (of_int n) = n"
  by (simp add: round_even_def)

lemma round_even_le: "y \<le> of_int n \<Longrightarrow> round_even y \<le> n"
proof (cases "y = of_int n")
  case True
  then show ?thesis by (simp add: round_even_of_int)
next
  case False
  assume "y \<le> of_int n"
  with False have "y < of_int n" by simp
  then have "\<lfloor>y\<rfloor> < n" by (simp add: floor_less_iff)
  with round_even_cases [of y] show ?thesis by auto
qed

lemma round_even_ge: "of_int n \<le> y \<Longrightarrow> n \<le> round_even y"
proof -
  assume "of_int n \<le> y"
  then have "n \<le> \<lfloor>y\<rfloor>" by (simp add: le_floor_iff)
  with round_even_cases [of y] show ?thesis by auto
qed

lemma fl_grid:
  assumes "0 < x" and "x < 2 ^ 46"
  shows "x \<le> of_int i / 128 \<Longrightarrow> fl x \<le> of_int i / 128"
    and "of_int i / 128 \<le> x \<Longrightarrow> of_int i / 128 \<le> fl x"
proof -
  from assms(2) have "x < 2 powi (45 + 1)" by simp
  from binade_upper [OF assms(1) this] have b: "binade x \<le> 45" .
  define t where "t = max (binade x - 52) (- 1074)"
  from b have t: "t \<le> - 7" by (simp add: t_def)
  define m where "m = nat (- t - 7)"
  from t have tm: "t = - int (7 + m)" by (simp add: m_def)
  define u :: rat where "u = 2 powi t"
  have u: "u = 1 / (128 * 2 ^ m)"
    unfolding u_def tm power_int_minus_divide power_int_of_nat by (simp add: power_add)
  have upos: "0 < u" by (simp add: u)
  from assms(1) have fl: "fl x = of_int (round_even (x / u)) * u"
    by (simp add: fl_def t_def u_def Let_def)
  have g: "of_int i / 128 = (of_int (i * 2 ^ m) :: rat) * u" by (simp add: u)
  {
    assume "x \<le> of_int i / 128"
    then have "x / u \<le> of_int (i * 2 ^ m)"
      using upos by (simp add: g pos_divide_le_eq)
    then have "round_even (x / u) \<le> i * 2 ^ m" by (rule round_even_le)
    then have "(of_int (round_even (x / u)) :: rat) \<le> of_int (i * 2 ^ m)" by (simp only: of_int_le_iff)
    then have "of_int (round_even (x / u)) * u \<le> (of_int (i * 2 ^ m) :: rat) * u"
      using upos by (simp only: mult_le_cancel_right_pos)
    then show "fl x \<le> of_int i / 128" by (simp only: fl g)
  }
  {
    assume "of_int i / 128 \<le> x"
    then have "of_int (i * 2 ^ m) \<le> x / u"
      using upos by (simp add: g pos_le_divide_eq)
    then have "i * 2 ^ m \<le> round_even (x / u)" by (rule round_even_ge)
    then have "(of_int (i * 2 ^ m) :: rat) \<le> of_int (round_even (x / u))" by (simp only: of_int_le_iff)
    then have "(of_int (i * 2 ^ m) :: rat) * u \<le> of_int (round_even (x / u)) * u"
      using upos by (simp only: mult_le_cancel_right_pos)
    then show "of_int i / 128 \<le> fl x" by (simp only: fl g)
  }
qed

lemma js_round_small: "\<bar>fl x\<bar> < 2 ^ 46 \<Longrightarrow> js_round x = Finite (fl x)"
proof -
  assume "\<bar>fl x\<bar> < 2 ^ 46"
  moreover have "(2::rat) ^ 46 \<le> 2 ^ 1024" by (intro power_increasing) simp_all
  ultimately have "\<not> 2 ^ 1024 \<le> \<bar>fl x\<bar>" by linarith
  then show ?thesis by (simp add: js_round_def Let_def)
qed

lemma double_25_4: "fl 25.4 = 7149464408450662 / 2 ^ 48"
  by code_simp

lemma fl_exact_int:
  assumes "0 \<le> n" and "(of_int n :: rat) < 2 ^ 46"
  shows "fl (of_int n) = of_int n"
proof (cases "n = 0")
  case True
  then show ?thesis by (simp add: fl_def)
next
  case False
  with assms(1) have pos: "0 < (of_int n :: rat)" by simp
  have g: "(of_int (128 * n) :: rat) / 128 = of_int n" by simp
  from fl_grid(1) [OF pos assms(2), of "128 * n"] have "fl (of_int n) \<le> of_int n"
    unfolding g by simp
  moreover from fl_grid(2) [OF pos assms(2), of "128 * n"] have "of_int n \<le> fl (of_int n)"
    unfolding g by simp
  ultimately show ?thesis by simp
qed

lemma mmToPixels_integer:
  assumes "0 \<le> n" and "n \<le> 10 ^ 10"
  shows "mmToPixels (Finite (of_int n)) = Finite (of_int \<lfloor>of_int n * 96 / (25.4 :: rat)\<rfloor>)"
proof -
  define x :: rat where "x = of_int (n * 96)"
  define D :: rat where "D = 7149464408450662 / 2 ^ 48"
  define e :: rat where "e = x / 25.4"
  define k where "k = \<lfloor>e\<rfloor>"
  have x0: "0 \<le> x" using assms(1) by (simp add: x_def)
  have "n * 96 \<le> 960000000000" using assms(2) by simp
  then have "(of_int (n * 96) :: rat) \<le> of_int 960000000000" by (simp only: of_int_le_iff)
  then have xb: "x \<le> 960000000000" by (simp add: x_def)
  then have x46: "x < 2 ^ 46" by simp
  have flx: "fl x = x" unfolding x_def using assms(1) x46 [unfolded x_def]
    by (intro fl_exact_int) simp_all
  have prod: "js_times (Finite (of_int n)) 96 = Finite x"
  proof -
    have "of_int n * 96 = x" by (simp add: x_def)
    moreover have "\<bar>fl x\<bar> < 2 ^ 46" using x0 x46 by (simp add: flx)
    then have "js_round x = Finite (fl x)" by (rule js_round_small)
    ultimately show ?thesis by (simp add: js_times_def flx)
  qed
  have Dpos: "0 < D" by (simp add: D_def)
  have e0: "0 \<le> e" using x0 by (simp add: e_def)
  have eb: "e \<le> 40000000000" using xb by (simp add: e_def)
  have k0: "0 \<le> k" using e0 by (simp add: k_def)
  have kle: "of_int k \<le> e" by (simp add: k_def)
  have q: "x / D = e + e * (1 / 17873661021126655)" by (simp add: e_def D_def)
  have lower: "of_int k \<le> x / D" using kle e0 by (simp add: q)
  have "e < of_int k + 1" unfolding k_def by linarith
  then have "of_int (n * 480) < (of_int (127 * k + 127) :: rat)"
    by (simp add: e_def x_def)
  then have "n * 480 < 127 * k + 127" by (simp only: of_int_less_iff)
  then have "n * 480 \<le> 127 * k + 126" by simp
  then have "(of_int (n * 480) :: rat) \<le> of_int (127 * k + 126)" by (simp only: of_int_le_iff)
  then have e126: "e \<le> of_int k + 126 / 127" by (simp add: e_def x_def)
  have "e * (1 / 17873661021126655) \<le> 1 / 16256" using eb by simp
  with e126 have upper2: "x / D \<le> of_int k + 127 / 128" unfolding q by linarith
  have gu: "(of_int (128 * k + 127) :: rat) / 128 = of_int k + 127 / 128" by simp
  have gl: "(of_int (128 * k) :: rat) / 128 = of_int k" by simp
  have upper: "x / D \<le> of_int (128 * k + 127) / 128" unfolding gu by (rule upper2)
  have lower': "of_int (128 * k) / 128 \<le> x / D" unfolding gl by (rule lower)
  show ?thesis
  proof (cases "n = 0")
    case True
    then show ?thesis
      by (simp add: mmToPixels_def js_times_def js_over_def js_floor_def js_round_def fl_def)
  next
    case False
    with assms(1) have "0 < x" by (simp add: x_def)
    with Dpos have qpos: "0 < x / D" by simp
    have "of_int k \<le> e" by (rule kle)
    also have "\<dots> \<le> 40000000000" by (rule eb)
    finally have kb: "(of_int k :: rat) \<le> 40000000000" .
    have big: "(40000000000 :: rat) + 127 / 128 < 2 ^ 46" by simp
    from upper2 kb big have q46: "x / D < 2 ^ 46" by linarith
    from fl_grid(1) [OF qpos q46 upper] have fu: "fl (x / D) \<le> of_int k + 127 / 128"
      unfolding gu .
    from fl_grid(2) [OF qpos q46 lower'] have fd: "of_int k \<le> fl (x / D)"
      unfolding gl .
    from fu have "fl (x / D) < of_int k + 1" by linarith
    with fd have floor: "\<lfloor>fl (x / D)\<rfloor> = k" by (simp add: floor_eq_iff)
    from k0 have "(0::rat) \<le> of_int k" by simp
    with fd have f0: "0 \<le> fl (x / D)" by linarith
    from fu kb big have "fl (x / D) < 2 ^ 46" by linarith
    with f0 have "\<bar>fl (x / D)\<bar> < 2 ^ 46" by simp
    then have r: "js_round (x / D) = Finite (fl (x / D))" by (rule js_round_small)
    have Dd: "fl 25.4 = D" unfolding D_def by (rule double_25_4)
    have "mmToPixels (Finite (of_int n)) = js_floor (js_over (Finite x) D)"
      unfolding mmToPixels_def prod Dd ..
    also have "js_over (Finite x) D = Finite (fl (x / D))" by (simp add: js_over_def r)
    also have "js_floor (Finite (fl (x / D))) = Finite (of_int k)"
      by (simp add: js_floor_def floor)
    finally have "mmToPixels (Finite (of_int n)) = Finite (of_int k)" .
    moreover have "of_int n * 96 / (25.4 :: rat) = e" by (simp add: e_def x_def)
    ultimately show ?thesis by (simp add: k_def)
  qed
qed

lemma viewport_values:
  "mmToPixels (Finite 210) = Finite 793" "mmToPixels (Finite 297) = Finite 1122"
proof -
  have a: "\<lfloor>(of_int 210 :: rat) * 96 / 25.4\<rfloor> = 793" by (simp add: floor_eq_iff)
  have b: "\<lfloor>(of_int 297 :: rat) * 96 / 25.4\<rfloor> = 1122" by (simp add: floor_eq_iff)
  from mmToPixels_integer [of 210] show "mmToPixels (Finite 210) = Finite 793"
    unfolding a by simp
  from mmToPixels_integer [of 297] show "mmToPixels (Finite 297) = Finite 1122"
    unfolding b by simp
qed

text \<open>
  C8, as the specification states it, fails at a value that is not an integer. The double
  \<open>2978943503521109 / 2^51\<close> (about 1.3229166666666665, the double just below \<open>127 / 96\<close>)
  is sent to 5, and the floor of \<open>mm * 96 / 25.4\<close> there is 4: the product rounds to
  \<open>126.99999999999999\<close> and the quotient rounds up to 5. At the literal \<open>25.4\<close> the program
  gives 95, where \<open>25.4 * 96 / 25.4\<close> is 96.
\<close>

theorem C8_counterexample_rounding:
  "fl (2978943503521109 / 2 ^ 51) = 2978943503521109 / 2 ^ 51
   \<and> mmToPixels (Finite (2978943503521109 / 2 ^ 51)) = Finite 5
   \<and> \<lfloor>(2978943503521109 / 2 ^ 51 :: rat) * 96 / 25.4\<rfloor> = 4
   \<and> mmToPixels (js_round 25.4) = Finite 95
   \<and> \<lfloor>(25.4 :: rat) * 96 / 25.4\<rfloor> = 96"
  by code_simp

text \<open>
  C8, amended. The viewport size is \<open>Math.floor((mm * 96) / 25.4)\<close> in double precision.
  For every integer \<open>mm\<close> from 0 to \<open>10^10\<close> it is the floor of the exact \<open>mm * 96 / 25.4\<close>;
  for the A4 sheet, 210 mm give 793 pixels and 297 mm give 1122 pixels.
\<close>

theorem C8_mmToPixels:
  "(0 \<le> n \<and> n \<le> 10 ^ 10 \<longrightarrow>
      mmToPixels (Finite (of_int n)) = Finite (of_int \<lfloor>of_int n * 96 / (25.4 :: rat)\<rfloor>))
   \<and> mmToPixels (Finite 210) = Finite 793 \<and> mmToPixels (Finite 297) = Finite 1122
   \<and> viewportWidth = Finite 793 \<and> viewportHeight = Finite 1122"
  using mmToPixels_integer [of n] viewport_values
  by (simp add: viewportWidth_def viewportHeight_def)

theorem C8_mmToPixels_witness:
  "(0::int) \<le> 1000 \<and> (1000::int) \<le> 10 ^ 10 \<and> mmToPixels (Finite 1000) = Finite 3779"
proof -
  have h: "(0::int) \<le> 1000 \<and> (1000::int) \<le> 10 ^ 10" by simp
  have f: "\<lfloor>(of_int 1000 :: rat) * 96 / 25.4\<rfloor> = 3779" by (simp add: floor_eq_iff)
  from C8_mmToPixels [of 1000] h
  have "mmToPixels (Finite (of_int 1000)) = Finite (of_int \<lfloor>of_int 1000 * 96 / (25.4 :: rat)\<rfloor>)"
    by blast
  then have "mmToPixels (Finite 1000) = Finite 3779" unfolding f by simp
  with h show ?thesis by blast
qed

subsection \<open>Encodings are invertible\<close>

lemma index_of_nth: "distinct xs \<Longrightarrow> i < length xs \<Longrightarrow> index_of xs (xs ! i) = Some i"
proof (induction xs arbitrary: i)
  case Nil
  then show ?case by simp
next
  case (Cons y ys)
  show ?case
  proof (cases i)
    case 0
    then show ?thesis by simp
  next
    case (Suc j)
    with Cons.prems have j: "j < length ys" and d: "distinct ys" and "y \<notin> set ys" by auto
    then have "ys ! j \<noteq> y" by (metis nth_mem)
    with Cons.IH [OF d j] Suc show ?thesis by simp
  qed
qed

lemma hex_digits_props: "distinct hex_digits" "length hex_digits = 16"
  by (simp_all add: hex_digits_def)

lemma hex_index: "n < 16 \<Longrightarrow> index_of hex_digits (hex_digits ! n) = Some n"
  by (rule index_of_nth) (simp_all add: hex_digits_props)

lemma unreserved_not_percent: "unreserved c \<Longrightarrow> c \<noteq> CHR ''%''"
  by (auto simp: unreserved_def squote_def)

lemma percent_decode_encode_char:
  "percent_decode (encode_char c @ rest) = map_option ((#) c) (percent_decode rest)"
proof (cases "unreserved c")
  case True
  then show ?thesis by (simp add: encode_char_def unreserved_not_percent)
next
  case False
  define n where "n = (of_char c :: nat)"
  have lt: "n < 256" by (simp add: n_def)
  then have hi: "n div 16 < 16" by arith
  have lo: "n mod 16 < 16" by simp
  have inv: "char_of (16 * (n div 16) + n mod 16) = c" by (simp add: n_def)
  from False show ?thesis
    using hex_index [OF hi] hex_index [OF lo] inv
    by (simp add: encode_char_def n_def)
qed

lemma percent_decode_encodeURIComponent: "percent_decode (encodeURIComponent t) = Some t"
proof (induction t)
  case Nil
  show ?case by (simp add: encodeURIComponent_def)
next
  case (Cons c t)
  have "encodeURIComponent (c # t) = encode_char c @ encodeURIComponent t"
    by (simp add: encodeURIComponent_def)
  then show ?case using Cons.IH by (simp add: percent_decode_encode_char)
qed
















lemma base64_Nil_iff: "base64 bs = [] \<longleftrightarrow> bs = []"
  by (induction bs rule: base64.induct) simp_all





subsection \<open>Replacement\<close>


lemma split_first_append:
  "split_first s p = Some (front, behind) \<Longrightarrow> s = front @ p @ behind"
proof (induction s arbitrary: front)
  case Nil
  then show ?case by (simp split: if_splits)
next
  case (Cons c cs)
  show ?case
  proof (cases "startsWith (c # cs) p")
    case True
    with Cons.prems have "front = []" "behind = drop (length p) (c # cs)" by simp_all
    moreover from True have "take (length p) (c # cs) = p" by (simp add: startsWith_def)
    ultimately show ?thesis by (metis append_Nil append_take_drop_id)
  next
    case False
    with Cons.prems obtain f where f: "split_first cs p = Some (f, behind)" and "front = c # f"
      by (auto split: option.splits)
    with Cons.IH [OF f] show ?thesis by simp
  qed
qed


lemma hex_digit_not_dollar: "n < 16 \<Longrightarrow> hex_digits ! n \<noteq> CHR ''$''"
proof -
  assume "n < 16"
  then have "hex_digits ! n \<in> set hex_digits" by (intro nth_mem) (simp add: hex_digits_props)
  then show ?thesis by (auto simp: hex_digits_def)
qed

lemma encode_char_no_dollar: "CHR ''$'' \<notin> set (encode_char c)"
proof (cases "unreserved c")
  case True
  then have "c \<noteq> CHR ''$''" by (auto simp: unreserved_def squote_def)
  with True show ?thesis by (simp add: encode_char_def)
next
  case False
  have "(of_char c :: nat) < 256" by simp
  then have "(of_char c :: nat) div 16 < 16" by arith
  moreover have "(of_char c :: nat) mod 16 < 16" by simp
  ultimately show ?thesis
    using False hex_digit_not_dollar [of "of_char c div 16"]
      hex_digit_not_dollar [of "of_char c mod 16"]
    by (auto simp: encode_char_def)
qed

lemma encodeURIComponent_no_dollar: "CHR ''$'' \<notin> set (encodeURIComponent t)"
  by (simp add: encodeURIComponent_def encode_char_no_dollar)


lemma process_image_remote: "\<not> is_local src \<Longrightarrow> process_image e basePath st src = st"
  by (cases st) (simp add: process_image_def)

lemma imageToDataURL_svg:
  assumes "toLowerCase e (extname e p) = ''.svg''" and "readText e p = Inr t"
    and "str_includes t ''<svg''"
  shows "imageToDataURL e p = (Some (''data:image/svg+xml;utf8,'' @ encodeURIComponent t), [])"
proof -
  from assms(3) have "t \<noteq> []" by auto
  with assms show ?thesis by (simp add: imageToDataURL_def processSVG_def)
qed

lemma imageToDataURL_svg_invalid:
  assumes "toLowerCase e (extname e p) = ''.svg''" and "readText e p = Inr t"
    and "\<not> str_includes t ''<svg''"
  shows "imageToDataURL e p = (None, [svg_warning p ''Not a valid SVG file''])"
  using assms by (simp add: imageToDataURL_def processSVG_def)

lemma imageToDataURL_svg_unreadable:
  assumes "toLowerCase e (extname e p) = ''.svg''" and "readText e p = Inl message"
  shows "imageToDataURL e p = (None, [svg_warning p message])"
  using assms by (simp add: imageToDataURL_def processSVG_def)


lemma imageToDataURL_raster_unreadable:
  assumes "toLowerCase e (extname e p) \<noteq> ''.svg''" and "readBytes e p = Inl message"
  shows "imageToDataURL e p = (Some p, [image_warning p message])"
  using assms by (simp add: imageToDataURL_def)

subsection \<open>The inliner, one image at a time\<close>


text \<open>
  C5, at a fragment where it fails. The fragment is what marked gives for
  \<open>a.svg ![x](a.svg)\<close>, and \<open>/d/a.svg\<close> holds the text \<open><svg a=$1>&</svg>\<close>. The data
  URL is built as the claim says (\<open>imageToDataURL_svg\<close>), and percent-decoding gives the
  text back (\<open>percent_decode_encodeURIComponent\<close>); but \<open>html.replace(src, dataUrl)\<close>
  replaces the first occurrence of the text \<open>a.svg\<close>, which is in the paragraph: the
  \<open>src\<close> of the image is not rewritten.
\<close>

theorem C5_svg_src_is_not_rewritten:
  \<open>processLocalImages example_env ''<p>a.svg <img src="a.svg" alt="x"></p>'' ''/d''
   = (''<p>data:image/svg+xml;utf8,%3Csvg%20a%3D%241%3E%26%3C%2Fsvg%3E <img src="a.svg" alt="x"></p>'',
      [])\<close>
  by code_simp




text \<open>
  C7, at a fragment where it fails. The loop passes over a \<open>src\<close> that starts with
  \<open>http://\<close>, \<open>https://\<close> or \<open>data:\<close> (\<open>process_image_remote\<close>), but the replacement
  made for another image can reach it. The fragment is what marked gives for
  \<open>![r](http://h/a.png) ![l](a.png)\<close>. The local \<open>a.png\<close> is inlined by
  \<open>html.replace(src, dataUrl)\<close>, which replaces the first occurrence of the text
  \<open>a.png\<close> in the fragment: the one inside the remote URL. The remote \<open>src\<close> is
  rewritten and the local one is left as it was.
\<close>

theorem C7_remote_url_is_rewritten:
  \<open>processLocalImages example_env
      ''<p><img src="http://h/a.png" alt="r"> <img src="a.png" alt="l"></p>'' ''/d''
   = (''<p><img src="http://h/data:image/png;base64,iVBORw==" alt="r"> <img src="a.png" alt="l"></p>'',
      [])\<close>
  by code_simp

subsection \<open>Runs of the conversion\<close>

lemma wait_pending_empty: "sizes i = 0 \<Longrightarrow> wait_pending sizes i = Some i"
  by (subst wait_pending.simps) simp

lemma example_world_simps:
  "files example_world = example_env"
  "dirname example_world p = ''/d''"
  "marked_parse example_world ''# T'' = Inr ''<h1>T</h1>''"
  "stylesheets example_world = (\<lambda>s. Inr [])"
  "rejects example_world c = None"
  "pending example_world i = 0"
  by (simp_all add: example_world_def)

lemma timeout_world_simps:
  "files timeout_world = example_env"
  "dirname timeout_world p = ''/d''"
  "marked_parse timeout_world ''# T'' = Inr ''<h1>T</h1>''"
  "stylesheets timeout_world = (\<lambda>s. Inr [])"
  "rejects timeout_world c =
     (case c of SetContent h \<Rightarrow> Some ''Navigation timeout of 30000 ms exceeded'' | _ \<Rightarrow> None)"
  "pending timeout_world i = 0"
  by (simp_all add: timeout_world_def example_world_def)

lemma example_read_doc: "readText example_env ''/d/doc.md'' = Inr ''# T''"
  by (simp add: example_env_def)

lemma example_inline: "processLocalImages example_env ''<h1>T</h1>'' ''/d'' = (''<h1>T</h1>'', [])"
  by code_simp

lemma example_generate:
  "\<exists>doc. generateHTML (\<lambda>s. Inr []) html opts = Inr doc"
  by (simp add: generateHTML_def)

lemma run_calls_subset: "run_calls w cs = (tr, r) \<Longrightarrow> set tr \<subseteq> Browser ` set cs"
proof (induction cs arbitrary: tr r)
  case Nil
  then show ?case by simp
next
  case (Cons c cs)
  show ?case
  proof (cases "rejects w c")
    case (Some m)
    with Cons.prems show ?thesis by simp
  next
    case None
    obtain tr' r' where rc: "run_calls w cs = (tr', r')" by (cases "run_calls w cs")
    with None Cons.prems have "tr = Browser c # tr'" by simp
    with Cons.IH [OF rc] show ?thesis by auto
  qed
qed

lemma run_calls_failed_last:
  "run_calls w (cs @ [c]) = (tr, Some m) \<Longrightarrow> set tr \<subseteq> Browser ` set cs"
proof (induction cs arbitrary: tr)
  case Nil
  then show ?case by (auto split: option.splits)
next
  case (Cons d cs)
  show ?case
  proof (cases "rejects w d")
    case (Some m')
    with Cons.prems show ?thesis by simp
  next
    case None
    obtain tr' r' where rc: "run_calls w (cs @ [c]) = (tr', r')"
      by (cases "run_calls w (cs @ [c])")
    with None Cons.prems have "tr = Browser d # tr'" and "r' = Some m" by simp_all
    with Cons.IH [of tr'] rc show ?thesis by auto
  qed
qed

lemma run_calls_accepted: "(\<forall>c. rejects w c = None) \<Longrightarrow> run_calls w cs = (map Browser cs, None)"
  by (induction cs) simp_all

lemma failed_run_leaves_browser_open:
  assumes "convertMarkdownToPdf w inputPath opts = Some tr" and "Exit 1 \<in> set tr"
  shows "Browser Close \<notin> set tr"
proof -
  have first: "\<And>finalHtml tr1 r. run_calls w
          [Launch, NewPage, SetDefaultNavigationTimeout 30000, SetDefaultTimeout 30000,
           SetRequestInterception True, SetViewport (mmToPixels (Finite 210)) (mmToPixels (Finite 297)),
           EmulateMediaType ''print'', SetContent finalHtml, EvaluateImages] = (tr1, r)
      \<Longrightarrow> Browser Close \<notin> set tr1 \<and> Exit 1 \<notin> set tr1"
  proof -
    fix finalHtml tr1 r
    assume "run_calls w
          [Launch, NewPage, SetDefaultNavigationTimeout 30000, SetDefaultTimeout 30000,
           SetRequestInterception True, SetViewport (mmToPixels (Finite 210)) (mmToPixels (Finite 297)),
           EmulateMediaType ''print'', SetContent finalHtml, EvaluateImages] = (tr1, r)"
    from run_calls_subset [OF this] show "Browser Close \<notin> set tr1 \<and> Exit 1 \<notin> set tr1" by auto
  qed
  define second where "second = (if scale opts \<noteq> Finite 1 then [EvaluateScale (scale opts)] else [])
           @ [Pdf (outputPath inputPath) (margins opts), Close]"
  have second_eq: "second = ((if scale opts \<noteq> Finite 1 then [EvaluateScale (scale opts)] else [])
           @ [Pdf (outputPath inputPath) (margins opts)]) @ [Close]"
    by (simp add: second_def)
  have second_failed: "\<And>tr2 m. run_calls w second = (tr2, Some m) \<Longrightarrow> Browser Close \<notin> set tr2"
  proof -
    fix tr2 m
    assume "run_calls w second = (tr2, Some m)"
    from run_calls_failed_last [OF this [unfolded second_eq]]
    show "Browser Close \<notin> set tr2" by (auto split: if_splits)
  qed
  have second: "\<And>tr2 r. run_calls w second = (tr2, r) \<Longrightarrow> Exit 1 \<notin> set tr2"
  proof -
    fix tr2 r
    assume "run_calls w second = (tr2, r)"
    from run_calls_subset [OF this] show "Exit 1 \<notin> set tr2" by auto
  qed
  from assms show ?thesis
    unfolding convertMarkdownToPdf_def Let_def catch_error_def second_def [symmetric]
    by (auto simp del: run_calls.simps split: sum.splits prod.splits option.splits
        dest!: first second second_failed)
qed

lemma conversion_completes:
  assumes "readText (files w) inputPath = Inr markdown"
    and "marked_parse w markdown = Inr parsed"
    and "\<forall>s. stylesheets w s = Inr (css s)"
    and "\<forall>c. rejects w c = None"
    and "pending w 0 = 0"
  shows "\<exists>tr. convertMarkdownToPdf w inputPath opts = Some tr
           \<and> Browser (Pdf (outputPath inputPath) (margins opts)) \<in> set tr
           \<and> Browser Close \<in> set tr \<and> Exit 1 \<notin> set tr"
proof -
  obtain html warnings where
    inl: "processLocalImages (files w) parsed (dirname w inputPath) = (html, warnings)"
    by (cases "processLocalImages (files w) parsed (dirname w inputPath)")
  from assms(3) obtain doc where doc: "generateHTML (stylesheets w) html opts = Inr doc"
    by (simp add: generateHTML_def)
  from assms(5) have wait: "wait_pending (pending w) 0 = Some 0" by (rule wait_pending_empty)
  show ?thesis
    unfolding convertMarkdownToPdf_def Let_def
    by (auto simp: assms(1,2) inl doc wait run_calls_accepted [OF assms(4)]
        simp del: run_calls.simps)
qed

lemma unreadable_svg_src_is_kept:
  \<open>processLocalImages example_env ''<p><img src="x.svg" alt="x"></p>'' ''/d''
   = (''<p><img src="x.svg" alt="x"></p>'', [''Warning: Could not process SVG /d/x.svg: ENOENT''])\<close>
  by code_simp

text \<open>
  C3, at a fragment where it fails. There is no file \<open>/d/x.gif\<close>. The warning is written
  and the image after it is inlined, but the \<open>src\<close> of the image that cannot be read is
  not left as it was: the \<open>catch\<close> of \<open>imageToDataURL\<close> returns the resolved path, not
  \<open>null\<close>, and the loop writes it in place of the \<open>src\<close>. (An SVG that cannot be read
  returns \<open>null\<close> and keeps its \<open>src\<close>: \<open>unreadable_svg_src_is_kept\<close>.)
\<close>

theorem C3_unreadable_image_src_is_rewritten:
  \<open>processLocalImages example_env
      ''<p><img src="x.gif" alt="x"> <img src="a.png" alt="a"></p>'' ''/d''
   = (''<p><img src="/d/x.gif" alt="x"> <img src="data:image/png;base64,iVBORw==" alt="a"></p>'',
      [''Warning: Could not load image /d/x.gif: ENOENT''])\<close>
  by code_simp

lemma pdf_only_at_output_path:
  assumes "convertMarkdownToPdf w inputPath opts = Some tr" and "Browser (Pdf q m) \<in> set tr"
  shows "q = outputPath inputPath"
proof -
  have first: "\<And>finalHtml tr1 r. run_calls w
          [Launch, NewPage, SetDefaultNavigationTimeout 30000, SetDefaultTimeout 30000,
           SetRequestInterception True, SetViewport (mmToPixels (Finite 210)) (mmToPixels (Finite 297)),
           EmulateMediaType ''print'', SetContent finalHtml, EvaluateImages] = (tr1, r)
      \<Longrightarrow> Browser (Pdf q m) \<notin> set tr1"
  proof -
    fix finalHtml tr1 r
    assume "run_calls w
          [Launch, NewPage, SetDefaultNavigationTimeout 30000, SetDefaultTimeout 30000,
           SetRequestInterception True, SetViewport (mmToPixels (Finite 210)) (mmToPixels (Finite 297)),
           EmulateMediaType ''print'', SetContent finalHtml, EvaluateImages] = (tr1, r)"
    from run_calls_subset [OF this] show "Browser (Pdf q m) \<notin> set tr1" by auto
  qed
  define second where "second = (if scale opts \<noteq> Finite 1 then [EvaluateScale (scale opts)] else [])
           @ [Pdf (outputPath inputPath) (margins opts), Close]"
  have second: "\<And>tr2 r. run_calls w second = (tr2, r) \<Longrightarrow> Browser (Pdf q m) \<in> set tr2
      \<Longrightarrow> q = outputPath inputPath"
  proof -
    fix tr2 r
    assume "run_calls w second = (tr2, r)" and "Browser (Pdf q m) \<in> set tr2"
    with run_calls_subset [of w second tr2 r] have "Pdf q m \<in> set second" by auto
    then show "q = outputPath inputPath" by (auto simp: second_def split: if_splits)
  qed
  from assms show ?thesis
    unfolding convertMarkdownToPdf_def Let_def catch_error_def second_def [symmetric]
    by (auto simp del: run_calls.simps split: sum.splits prod.splits option.splits
        dest: first second)
qed

text \<open>
  C9. The output path is a function of the input path alone: an input path \<open>stem.md\<close>
  gives \<open>stem.pdf\<close>, the \<open>.md\<close> extension replaced by \<open>.pdf\<close>, and for every input path the
  output path lies in the directory of the input path. A run of the conversion calls
  \<open>page.pdf\<close> with no other path, and a conversion of \<open>stem.md\<close> that goes through writes
  \<open>stem.pdf\<close>.
\<close>

theorem C9_output_path_sibling:
  "outputPath (stem @ ''.md'') = stem @ ''.pdf''
   \<and> dir_prefix (outputPath p) = dir_prefix p
   \<and> (convertMarkdownToPdf w p opts = Some tr \<and> Browser (Pdf q m) \<in> set tr \<longrightarrow>
        q = outputPath p \<and> dir_prefix q = dir_prefix p)
   \<and> (readText (files w) (stem @ ''.md'') = Inr markdown
        \<and> marked_parse w markdown = Inr parsed \<and> (\<forall>s. stylesheets w s = Inr (css s))
        \<and> (\<forall>c. rejects w c = None) \<and> pending w 0 = 0 \<longrightarrow>
        (\<exists>tr. convertMarkdownToPdf w (stem @ ''.md'') opts = Some tr
           \<and> Browser (Pdf (stem @ ''.pdf'') (margins opts)) \<in> set tr))"
proof (intro conjI impI)
  show "outputPath (stem @ ''.md'') = stem @ ''.pdf''" by (rule outputPath_md)
next
  from outputPath_cases [of p] show dir: "dir_prefix (outputPath p) = dir_prefix p"
  proof
    assume "outputPath p = p"
    then show ?thesis by simp
  next
    assume "\<exists>stem. p = stem @ ''.md'' \<and> outputPath p = stem @ ''.pdf''"
    then obtain stem where p: "p = stem @ ''.md''" and o: "outputPath p = stem @ ''.pdf''"
      by blast
    have "dir_prefix (stem @ ''.pdf'') = dir_prefix stem"
      by (rule dir_prefix_append) simp
    moreover have "dir_prefix (stem @ ''.md'') = dir_prefix stem"
      by (rule dir_prefix_append) simp
    ultimately show ?thesis using p o by simp
  qed
  {
    assume a: "convertMarkdownToPdf w p opts = Some tr \<and> Browser (Pdf q m) \<in> set tr"
    then show "q = outputPath p" using pdf_only_at_output_path by blast
    with dir show "dir_prefix q = dir_prefix p" by simp
  }
next
  assume a: "readText (files w) (stem @ ''.md'') = Inr markdown
        \<and> marked_parse w markdown = Inr parsed \<and> (\<forall>s. stylesheets w s = Inr (css s))
        \<and> (\<forall>c. rejects w c = None) \<and> pending w 0 = 0"
  from a conversion_completes [of w "stem @ ''.md''" markdown parsed css opts]
  obtain tr where "convertMarkdownToPdf w (stem @ ''.md'') opts = Some tr"
    and "Browser (Pdf (outputPath (stem @ ''.md'')) (margins opts)) \<in> set tr"
    by blast
  then show "\<exists>tr. convertMarkdownToPdf w (stem @ ''.md'') opts = Some tr
           \<and> Browser (Pdf (stem @ ''.pdf'') (margins opts)) \<in> set tr"
    unfolding outputPath_md by blast
qed

theorem C9_output_path_sibling_witness:
  "\<exists>tr. convertMarkdownToPdf example_world (''/d/doc'' @ ''.md'') default_options = Some tr
      \<and> Browser (Pdf (''/d/doc'' @ ''.pdf'') default_margins) \<in> set tr
      \<and> Browser (Pdf ''/d/doc.md'' default_margins) \<notin> set tr"
proof -
  have h: "readText (files example_world) (''/d/doc'' @ ''.md'') = Inr ''# T''
      \<and> marked_parse example_world ''# T'' = Inr ''<h1>T</h1>''
      \<and> (\<forall>s. stylesheets example_world s = Inr ((\<lambda>s. []) s))
      \<and> (\<forall>c. rejects example_world c = None) \<and> pending example_world 0 = 0"
    by (simp add: example_world_simps example_env_def)
  have o: "outputPath (''/d/doc'' @ ''.md'') = ''/d/doc.pdf''" by code_simp
  note T = C9_output_path_sibling
    [of "''/d/doc''" "''/d/doc'' @ ''.md''" example_world default_options _ _ _
        "''# T''" "''<h1>T</h1>''" "\<lambda>s. []"]
  from T h obtain tr where
    tr: "convertMarkdownToPdf example_world (''/d/doc'' @ ''.md'') default_options = Some tr"
    and pdf: "Browser (Pdf (''/d/doc'' @ ''.pdf'') (margins default_options)) \<in> set tr"
    by blast
  have other: "Browser (Pdf ''/d/doc.md'' default_margins) \<notin> set tr"
  proof
    assume "Browser (Pdf ''/d/doc.md'' default_margins) \<in> set tr"
    with tr C9_output_path_sibling
      [of "''/d/doc''" "''/d/doc'' @ ''.md''" example_world default_options tr
          "''/d/doc.md''" default_margins]
    have "''/d/doc.md'' = outputPath (''/d/doc'' @ ''.md'')" by blast
    then show False by (simp only: o) simp
  qed
  from pdf have "Browser (Pdf (''/d/doc'' @ ''.pdf'') default_margins) \<in> set tr"
    by (simp add: default_options_def)
  with tr other show ?thesis by blast
qed

text \<open>
  C10. An input path that does not end in \<open>.md\<close> is its own output path, and only such
  a path is: the output path differs from the input path exactly when the input path
  ends in \<open>.md\<close>. A conversion of such a path that goes through writes the PDF to
  the input path itself.
\<close>

theorem C10_output_path_without_md:
  "(\<not> suffix ''.md'' p \<longrightarrow> outputPath p = p)
   \<and> (suffix ''.md'' p \<longrightarrow> outputPath p \<noteq> p)
   \<and> (\<not> suffix ''.md'' p \<and> readText (files w) p = Inr markdown
        \<and> marked_parse w markdown = Inr parsed \<and> (\<forall>s. stylesheets w s = Inr (css s))
        \<and> (\<forall>c. rejects w c = None) \<and> pending w 0 = 0 \<longrightarrow>
        (\<exists>tr. convertMarkdownToPdf w p opts = Some tr
           \<and> Browser (Pdf p (margins opts)) \<in> set tr))"
proof (intro conjI impI)
  assume "\<not> suffix ''.md'' p"
  then show "outputPath p = p" by (rule outputPath_other)
next
  assume "suffix ''.md'' p"
  then obtain stem where p: "p = stem @ ''.md''" by (auto simp: suffix_def)
  have "outputPath p = stem @ ''.pdf''" unfolding p by (rule outputPath_md)
  then show "outputPath p \<noteq> p" using p by simp
next
  assume a: "\<not> suffix ''.md'' p \<and> readText (files w) p = Inr markdown
        \<and> marked_parse w markdown = Inr parsed \<and> (\<forall>s. stylesheets w s = Inr (css s))
        \<and> (\<forall>c. rejects w c = None) \<and> pending w 0 = 0"
  then have same: "outputPath p = p" by (simp add: outputPath_other)
  from a conversion_completes [of w p markdown parsed css opts]
  obtain tr where "convertMarkdownToPdf w p opts = Some tr"
    and "Browser (Pdf (outputPath p) (margins opts)) \<in> set tr"
    by blast
  then show "\<exists>tr. convertMarkdownToPdf w p opts = Some tr
           \<and> Browser (Pdf p (margins opts)) \<in> set tr"
    unfolding same by blast
qed

theorem C10_output_path_without_md_witness:
  "\<not> suffix ''.md'' ''/d/notes.txt'' \<and> outputPath ''/d/notes.txt'' = ''/d/notes.txt''
   \<and> suffix ''.md'' ''/d/doc.md'' \<and> outputPath ''/d/doc.md'' \<noteq> ''/d/doc.md''
   \<and> (\<exists>tr. convertMarkdownToPdf example_world ''/d/notes.txt'' default_options = Some tr
          \<and> Browser (Pdf ''/d/notes.txt'' default_margins) \<in> set tr)"
proof -
  have n: "\<not> suffix ''.md'' ''/d/notes.txt''" by (simp add: suffix_def Cons_eq_append_conv)
  have m: "suffix ''.md'' ''/d/doc.md''" by (simp add: suffix_def)
  have h: "\<not> suffix ''.md'' ''/d/notes.txt''
      \<and> readText (files example_world) ''/d/notes.txt'' = Inr ''# T''
      \<and> marked_parse example_world ''# T'' = Inr ''<h1>T</h1>''
      \<and> (\<forall>s. stylesheets example_world s = Inr ((\<lambda>s. []) s))
      \<and> (\<forall>c. rejects example_world c = None) \<and> pending example_world 0 = 0"
    using n by (simp add: example_world_simps example_env_def)
  note T1 = C10_output_path_without_md
    [of "''/d/notes.txt''" example_world "''# T''" "''<h1>T</h1>''" "\<lambda>s. []" default_options]
  note T2 = C10_output_path_without_md [of "''/d/doc.md''"]
  from T1 n have a: "outputPath ''/d/notes.txt'' = ''/d/notes.txt''" by blast
  from T2 m have b: "outputPath ''/d/doc.md'' \<noteq> ''/d/doc.md''" by blast
  from T1 h have "\<exists>tr. convertMarkdownToPdf example_world ''/d/notes.txt'' default_options = Some tr
          \<and> Browser (Pdf ''/d/notes.txt'' (margins default_options)) \<in> set tr"
    by blast
  then have c: "\<exists>tr. convertMarkdownToPdf example_world ''/d/notes.txt'' default_options = Some tr
          \<and> Browser (Pdf ''/d/notes.txt'' default_margins) \<in> set tr"
    by (simp add: default_options_def)
  from n a m b c show ?thesis by blast
qed

subsection \<open>Font size, validation and the browser\<close>

lemma generateHTML_font_size_only:
  assumes "css CustomCss = Inr c" "css GithubCss = Inr g" "css HighlightCss = Inr h"
  shows "\<exists>front behind. \<forall>F. generateHTML css html \<lparr>scale = s, fontSize = F, margins = m\<rparr>
            = Inr (front @ show_int F @ behind)"
proof -
  let ?front = \<open>''<!DOCTYPE html>'' @ nl
                      @ ''    <html>'' @ nl
                      @ ''    <head>'' @ nl
                      @ ''        <meta charset="UTF-8">'' @ nl
                      @ ''        <meta name="viewport" content="width=device-width, initial-scale=1">'' @ nl
                      @ ''        <style>'' @ nl
                      @ ''            '' @ g @ nl
                      @ ''            '' @ h @ nl
                      @ ''            '' @ c @ nl
                      @ ''            .markdown-body { font-size: ''\<close>
  let ?behind = \<open>''px; }'' @ nl
                      @ ''        </style>'' @ nl
                      @ ''    </head>'' @ nl
                      @ ''    <body class="markdown-body">'' @ nl
                      @ ''        '' @ html @ nl
                      @ ''    </body>'' @ nl
                      @ ''    </html>''\<close>
  have "\<forall>F. generateHTML css html \<lparr>scale = s, fontSize = F, margins = m\<rparr>
            = Inr (?front @ show_int F @ ?behind)"
    using assms by (simp add: generateHTML_def)
  then show ?thesis by blast
qed

text \<open>
  C1, at the default font size 16. The document assembled by \<open>generateHTML\<close> holds one
  computed rule, \<open>.markdown-body { font-size: 16px; }\<close>: there is no rule for \<open>h1\<close> and
  no \<open>32px\<close> in it.
\<close>

theorem C1_only_the_base_font_size_is_computed:
  "generateHTML (\<lambda>s. Inr []) ''<p>T</p>'' default_options = Inr example_document
   \<and> \<not> str_includes example_document ''32px''
   \<and> \<not> str_includes example_document ''h1''"
  by code_simp

lemma legacy_rejects_scale_zero:
  "legacy_validate (Finite 0) (Finite 16) default_margins
   = Some ''Error: Scale factor must be a positive number''"
  by code_simp

lemma legacy_accepts_infinite_scale:
  "legacy_validate PosInfinity (Finite 16) default_margins = None"
  by code_simp

text \<open>
  C2, at \<open>--scale 0\<close>. The action does not validate the options: the run converts
  the document with the scale 0, writes \<open>/d/doc.pdf\<close> and ends without a diagnostic and
  without \<open>process.exit\<close>. (The events are listed without the document text.)
\<close>

theorem C2_scale_zero_is_converted:
  "map_option without_content
     (action example_world ''/d/doc.md''
        \<lparr>cli_scale = Finite 0, cli_fontSize = Some 16, cli_margin = None\<rparr>)
   = Some [LogOptions (default_options\<lparr>scale := Finite 0\<rparr>),
           Browser Launch, Browser NewPage,
           Browser (SetDefaultNavigationTimeout 30000), Browser (SetDefaultTimeout 30000),
           Browser (SetRequestInterception True), Browser (SetViewport (Finite 793) (Finite 1122)),
           Browser (EmulateMediaType ''print''), Browser EvaluateImages,
           Browser (EvaluateScale (Finite 0)),
           Browser (Pdf ''/d/doc.pdf'' default_margins), Browser Close,
           Log ''PDF created successfully at: /d/doc.pdf'',
           LogSettings (default_options\<lparr>scale := Finite 0\<rparr>)]"
proof -
  let ?opts = "default_options\<lparr>scale := Finite 0\<rparr>"
  obtain doc where doc: "generateHTML (\<lambda>s. Inr []) ''<h1>T</h1>'' ?opts = Inr doc"
    using example_generate by blast
  have out: "outputPath ''/d/doc.md'' = ''/d/doc.pdf''" by code_simp
  have sc: "scale ?opts = Finite 0" "margins ?opts = default_margins"
    by (simp_all add: default_options_def)
  have conv: "convertMarkdownToPdf example_world ''/d/doc.md'' ?opts
    = Some [Browser Launch, Browser NewPage,
           Browser (SetDefaultNavigationTimeout 30000), Browser (SetDefaultTimeout 30000),
           Browser (SetRequestInterception True), Browser (SetViewport (Finite 793) (Finite 1122)),
           Browser (EmulateMediaType ''print''), Browser (SetContent doc), Browser EvaluateImages,
           Browser (EvaluateScale (Finite 0)),
           Browser (Pdf ''/d/doc.pdf'' default_margins), Browser Close,
           Log ''PDF created successfully at: /d/doc.pdf'',
           LogSettings ?opts]"
    by (simp add: convertMarkdownToPdf_def example_world_simps example_read_doc
        example_inline doc viewport_values wait_pending_empty out sc)
  have act: "action example_world ''/d/doc.md''
        \<lparr>cli_scale = Finite 0, cli_fontSize = Some 16, cli_margin = None\<rparr>
      = map_option ((#) (LogOptions ?opts)) (convertMarkdownToPdf example_world ''/d/doc.md'' ?opts)"
    by (simp add: action_def default_options_def default_margins_def Let_def)
  show ?thesis
    unfolding act conv by (simp add: without_content_def is_content_def)
qed

text \<open>
  C4, when \<open>page.setContent\<close> times out. The browser has been launched; the \<open>catch\<close>
  reports the error and exits with status 1, and \<open>browser.close()\<close> is never called.
\<close>

theorem C4_browser_left_open_on_failure:
  "convertMarkdownToPdf timeout_world ''/d/doc.md'' default_options
   = Some [Browser Launch, Browser NewPage,
           Browser (SetDefaultNavigationTimeout 30000), Browser (SetDefaultTimeout 30000),
           Browser (SetRequestInterception True), Browser (SetViewport (Finite 793) (Finite 1122)),
           Browser (EmulateMediaType ''print''),
           ConsoleError ''Navigation timeout of 30000 ms exceeded'', Exit 1]"
proof -
  obtain doc where doc: "generateHTML (\<lambda>s. Inr []) ''<h1>T</h1>'' default_options = Inr doc"
    using example_generate by blast
  show ?thesis
    by (simp add: convertMarkdownToPdf_def timeout_world_simps example_read_doc
        example_inline doc viewport_values catch_error_def)
qed

end
